theory Spec2Isabelle
  imports Main "HOL-Library.Log_Nat"
begin

section \<open>JavaScript numbers\<close>

text \<open>
  A number is an IEEE double: an integer-valued double \<open>Fin i\<close>, a double \<open>Frac q\<close>
  whose exact value \<open>q\<close> is not an integer, an infinity, or \<^verbatim>\<open>NaN\<close>. Negative zero
  is not told apart from zero: this program only multiplies, adds, subtracts,
  compares, tests for truth and prints numbers, and none of these tells them apart.
\<close>

datatype jsnum = Fin int | Frac rat | PosInf | NegInf | NaN

text \<open>
  \<open>Fin i\<close> and \<open>Frac q\<close> are numbers of the program when \<open>i\<close> and \<open>q\<close> are values
  of doubles; \<^verbatim>\<open>JSON.parse\<close>, the clock and the arithmetic below give no others.
\<close>

fun rat_of :: "jsnum \<Rightarrow> rat" where
  "rat_of (Fin i) = of_int i"
| "rat_of (Frac q) = q"
| "rat_of _ = 0"

definition to_num :: "rat \<Rightarrow> jsnum" where
  "to_num q = (if of_int \<lfloor>q\<rfloor> = q then Fin \<lfloor>q\<rfloor> else Frac q)"

text \<open>The \<open>E\<close> with \<open>2 ^ E \<le> a < 2 ^ (E + 1)\<close>, for a positive \<open>a\<close>.\<close>

definition ilog2 :: "rat \<Rightarrow> int" where
  "ilog2 a = (let (p, d) = quotient_of a; n = bitlen p - bitlen d
              in if power_int 2 n \<le> a then n else n - 1)"

text \<open>The nearest integer, the even one of two that are equally near.\<close>

definition half_even :: "rat \<Rightarrow> int" where
  "half_even q = (let f = \<lfloor>q\<rfloor>; r = q - of_int f
                  in if r < 1 / 2 then f
                     else if 1 / 2 < r then f + 1
                     else if even f then f else f + 1)"

text \<open>
  The double an exact result is rounded to (round to nearest, ties to even): a
  multiple of \<open>2 ^ e\<close> with at most 53 significant bits, where \<open>e\<close> is not below the
  exponent of the subnormal doubles, and an infinity from \<open>2 ^ 1024\<close> on.
\<close>

definition round_double :: "rat \<Rightarrow> jsnum" where
  "round_double q =
     (if q = 0 then Fin 0
      else let a = \<bar>q\<bar>;
               e = max (ilog2 a - 52) (- 1074);
               r = of_int (half_even (a / power_int 2 e)) * power_int 2 e
           in if power_int 2 1024 \<le> r then (if 0 < q then PosInf else NegInf)
              else to_num (if 0 < q then r else - r))"

fun js_neg :: "jsnum \<Rightarrow> jsnum" where
  "js_neg (Fin i) = Fin (- i)"
| "js_neg (Frac q) = Frac (- q)"
| "js_neg PosInf = NegInf"
| "js_neg NegInf = PosInf"
| "js_neg NaN = NaN"

fun js_add :: "jsnum \<Rightarrow> jsnum \<Rightarrow> jsnum" where
  "js_add NaN _ = NaN"
| "js_add _ NaN = NaN"
| "js_add PosInf NegInf = NaN"
| "js_add NegInf PosInf = NaN"
| "js_add PosInf _ = PosInf"
| "js_add _ PosInf = PosInf"
| "js_add NegInf _ = NegInf"
| "js_add _ NegInf = NegInf"
| "js_add x y = round_double (rat_of x + rat_of y)"

text \<open>
  The only difference this program takes is \<^verbatim>\<open>expiresAt - (5 * 60 * 1000)\<close>, for the
  comparison with the clock. On two integers it is kept exact: the rounded difference
  is the same up to \<open>2 ^ 53\<close>, and beyond it compares in the same way with every value
  the clock can have (\<open>js_sub_compares_as_rounded\<close> below). Every other difference is
  rounded.
\<close>

fun js_sub :: "jsnum \<Rightarrow> jsnum \<Rightarrow> jsnum" where
  "js_sub (Fin a) (Fin b) = Fin (a - b)"
| "js_sub x y = js_add x (js_neg y)"

text \<open>The sign of a number that is not \<^verbatim>\<open>NaN\<close>.\<close>

fun sign_of :: "jsnum \<Rightarrow> int" where
  "sign_of PosInf = 1"
| "sign_of NegInf = - 1"
| "sign_of x = (if 0 < rat_of x then 1 else if rat_of x < 0 then - 1 else 0)"

definition infinite_num :: "jsnum \<Rightarrow> bool" where
  "infinite_num x = (x = PosInf \<or> x = NegInf)"

definition js_mul :: "jsnum \<Rightarrow> jsnum \<Rightarrow> jsnum" where
  "js_mul x y =
     (if x = NaN \<or> y = NaN then NaN
      else if infinite_num x \<or> infinite_num y
      then (if sign_of x * sign_of y = 0 then NaN
            else if 0 < sign_of x * sign_of y then PosInf else NegInf)
      else round_double (rat_of x * rat_of y))"

fun js_gt :: "jsnum \<Rightarrow> jsnum \<Rightarrow> bool" where
  "js_gt (Fin a) (Fin b) = (a > b)"
| "js_gt NaN _ = False"
| "js_gt _ NaN = False"
| "js_gt PosInf PosInf = False"
| "js_gt PosInf _ = True"
| "js_gt _ PosInf = False"
| "js_gt NegInf _ = False"
| "js_gt _ NegInf = True"
| "js_gt x y = (rat_of x > rat_of y)"

section \<open>JavaScript values\<close>

text \<open>
  The token record is whatever \<^verbatim>\<open>JSON.parse\<close> returns, so the model works on JSON
  values. An object is the list of its own properties in insertion order, with
  distinct keys.
\<close>

datatype jsval =
    JNull
  | JBool bool
  | JNum jsnum
  | JStr string
  | JArr "jsval list"
  | JObj "(string \<times> jsval) list"

text \<open>
  \<^verbatim>\<open>v.k\<close> for a value \<open>v\<close> that is not \<^verbatim>\<open>null\<close>; \<open>None\<close> is \<^verbatim>\<open>undefined\<close>.
  The property names read by this program (\<^verbatim>\<open>access_token\<close>, \<^verbatim>\<open>refresh_token\<close>,
  \<^verbatim>\<open>expires_at\<close>, \<^verbatim>\<open>expires_in\<close>) are not defined on numbers, strings, booleans or
  arrays. Reading a property of \<^verbatim>\<open>null\<close> throws; every reader below either is guarded
  by the source or models the throw before it calls \<open>get_prop\<close>.
\<close>

fun get_prop :: "jsval \<Rightarrow> string \<Rightarrow> jsval option" where
  "get_prop (JObj kvs) k = map_of kvs k"
| "get_prop _ k = None"

primrec assign :: "string \<Rightarrow> jsval \<Rightarrow> (string \<times> jsval) list \<Rightarrow> (string \<times> jsval) list" where
  "assign k v [] = [(k, v)]"
| "assign k v (p # ps) = (if fst p = k then (k, v) # ps else p # assign k v ps)"

text \<open>
  \<^verbatim>\<open>v.k = x\<close> in sloppy mode (neither source file is strict). On an object the
  property is replaced in place or appended. On a number, string or boolean the
  assignment is silently dropped. On an array it creates a named property, which no
  reader of this program can see (\<^verbatim>\<open>access_token\<close> is never assigned, and
  \<^verbatim>\<open>JSON.stringify\<close> leaves named properties of an array out), so the array is kept
  as it is.
\<close>

fun set_prop :: "jsval \<Rightarrow> string \<Rightarrow> jsval \<Rightarrow> jsval" where
  "set_prop (JObj kvs) k x = JObj (assign k x kvs)"
| "set_prop v k x = v"

text \<open>JavaScript truthiness; \<open>None\<close> is \<^verbatim>\<open>undefined\<close>.\<close>

fun truthy :: "jsval option \<Rightarrow> bool" where
  "truthy None = False"
| "truthy (Some JNull) = False"
| "truthy (Some (JBool b)) = b"
| "truthy (Some (JNum (Fin n))) = (n \<noteq> 0)"
| "truthy (Some (JNum NaN)) = False"
| "truthy (Some (JNum (Frac q))) = (q \<noteq> 0)"
| "truthy (Some (JNum PosInf)) = True"
| "truthy (Some (JNum NegInf)) = True"
| "truthy (Some (JStr s)) = (s \<noteq> [])"
| "truthy (Some (JArr xs)) = True"
| "truthy (Some (JObj kvs)) = True"

datatype js_exn = TypeError | SyntaxError | IOError

text \<open>
  Where the conversion of a value to a string or to a number throws. An object from
  \<^verbatim>\<open>JSON.parse\<close> holds no function, so an own property \<^verbatim>\<open>toString\<close> shadows the
  inherited method with something that cannot be called, and the conversion ends in a
  \<^verbatim>\<open>TypeError\<close>, whether it tries \<^verbatim>\<open>toString\<close> or \<^verbatim>\<open>valueOf\<close> first. An array is
  converted by joining the conversions of its elements. Nothing else throws.
\<close>

fun conversion_throws :: "jsval \<Rightarrow> bool" where
  "conversion_throws (JObj kvs) = (map_of kvs ''toString'' \<noteq> None)"
| "conversion_throws (JArr xs) = (\<exists>x \<in> set xs. conversion_throws x)"
| "conversion_throws v = False"

text \<open>
  \<^verbatim>\<open>ToNumber\<close>. On \<^verbatim>\<open>undefined\<close>, \<^verbatim>\<open>null\<close>, booleans and numbers it is fixed by the
  language. On a string, an array or an object that converts without throwing, the
  number is the one the runtime reads from the string; that part is the parameter
  \<open>rt\<close>.
\<close>

type_synonym runtime = "jsval \<Rightarrow> jsnum"

fun to_number :: "runtime \<Rightarrow> jsval option \<Rightarrow> js_exn + jsnum" where
  "to_number rt None = Inr NaN"
| "to_number rt (Some JNull) = Inr (Fin 0)"
| "to_number rt (Some (JBool b)) = Inr (Fin (if b then 1 else 0))"
| "to_number rt (Some (JNum n)) = Inr n"
| "to_number rt (Some v) = (if conversion_throws v then Inl TypeError else Inr (rt v))"

text \<open>
  What \<^verbatim>\<open>JSON.parse\<close> reads back from the text \<^verbatim>\<open>JSON.stringify\<close> writes: the value
  itself, with \<^verbatim>\<open>NaN\<close> and the infinities written as \<^verbatim>\<open>null\<close>.
\<close>

primrec json_of :: "jsval \<Rightarrow> jsval" where
  "json_of JNull = JNull"
| "json_of (JBool b) = JBool b"
| "json_of (JNum n) =
     (case n of Fin i \<Rightarrow> JNum (Fin i) | Frac q \<Rightarrow> JNum (Frac q) | _ \<Rightarrow> JNull)"
| "json_of (JStr s) = JStr s"
| "json_of (JArr xs) = JArr (map json_of xs)"
| "json_of (JObj kvs) = JObj (map (map_prod id json_of) kvs)"

section \<open>State: the cache, the token file, the effects\<close>

text \<open>
  A text as \<^verbatim>\<open>JSON.parse\<close> sees it: one it rejects, or one it parses to a value.
  \<^verbatim>\<open>JSON.stringify\<close> writes a text that parses back to \<open>json_of\<close> of the value.
\<close>

datatype json_text = Malformed | Json jsval

definition JSON_parse :: "json_text \<Rightarrow> js_exn + jsval" where
  "JSON_parse d = (case d of Malformed \<Rightarrow> Inl SyntaxError | Json v \<Rightarrow> Inr v)"

definition JSON_stringify :: "jsval \<Rightarrow> json_text" where
  "JSON_stringify v = Json (json_of v)"

text \<open>
  What reading the token file finds: no file; a file that \<^verbatim>\<open>statSync\<close> or
  \<^verbatim>\<open>readFileSync\<close> cannot read; a text.
\<close>

datatype file_state = FileMissing | FileUnreadable | FileText json_text

text \<open>The effects that leave the process, in the order they happen.\<close>

datatype effect = StoreRead | StoreWrite | TokenPost jsval

text \<open>
  \<open>cachedTokens\<close> is the module variable (\<open>JNull\<close> at start). \<open>write_fault\<close> is the
  environment of \<^verbatim>\<open>writeFileSync\<close>: \<open>None\<close> when it succeeds, \<open>Some f\<close> when it throws
  and leaves the file as \<open>f\<close>.
\<close>

record state =
  cachedTokens :: jsval
  token_file :: file_state
  write_fault :: "file_state option"
  effects :: "effect list"

definition posts :: "state \<Rightarrow> jsval list" where
  "posts s = concat (map (\<lambda>e. case e of TokenPost r \<Rightarrow> [r] | _ \<Rightarrow> []) (effects s))"

section \<open>token-manager.js\<close>

subsection \<open>loadTokenCache\<close>

text \<open>
  The inner \<^verbatim>\<open>try\<close> block: \<^verbatim>\<open>JSON.parse\<close>, then \<^verbatim>\<open>Object.keys(tokens)\<close>, which
  throws on \<^verbatim>\<open>null\<close>, then the check of \<^verbatim>\<open>access_token\<close>, then the log line that
  prints \<^verbatim>\<open>tokens.expires_at || 0\<close> in a template literal, which throws when that
  value cannot be converted to a string, then the cache update.
\<close>

definition load_parse :: "json_text \<Rightarrow> state \<Rightarrow> js_exn + (jsval \<times> state)" where
  "load_parse tokenData s =
     (case JSON_parse tokenData of
        Inl e \<Rightarrow> Inl e
      | Inr tokens \<Rightarrow>
          if tokens = JNull then Inl TypeError
          else if \<not> truthy (get_prop tokens ''access_token'') then Inr (JNull, s)
          else (let expiresAt = (if truthy (get_prop tokens ''expires_at'')
                                 then get_prop tokens ''expires_at''
                                 else Some (JNum (Fin 0)))
                in case expiresAt of
                     None \<Rightarrow> Inr (tokens, s\<lparr>cachedTokens := tokens\<rparr>)
                   | Some v \<Rightarrow>
                       if conversion_throws v then Inl TypeError
                       else Inr (tokens, s\<lparr>cachedTokens := tokens\<rparr>)))"

text \<open>Whether that log line throws on a parsed record.\<close>

definition expires_at_throws :: "jsval \<Rightarrow> bool" where
  "expires_at_throws tokens =
     (case get_prop tokens ''expires_at'' of
        None \<Rightarrow> False
      | Some v \<Rightarrow> conversion_throws v)"

text \<open>
  The outer \<^verbatim>\<open>try\<close> block: \<^verbatim>\<open>existsSync\<close>, \<^verbatim>\<open>statSync\<close>, \<^verbatim>\<open>readFileSync\<close>, and the
  inner block with its \<^verbatim>\<open>catch (parseError)\<close>, which returns \<^verbatim>\<open>null\<close>.
\<close>

definition load_read :: "state \<Rightarrow> js_exn + (jsval \<times> state)" where
  "load_read s =
     (case token_file s of
        FileMissing \<Rightarrow> Inr (JNull, s)
      | FileUnreadable \<Rightarrow> Inl IOError
      | FileText tokenData \<Rightarrow>
          (case load_parse tokenData s of
             Inl parseError \<Rightarrow> Inr (JNull, s)
           | Inr r \<Rightarrow> Inr r))"

text \<open>The function, with its outer \<^verbatim>\<open>catch (error)\<close>, which returns \<^verbatim>\<open>null\<close>.\<close>

definition loadTokenCache :: "state \<Rightarrow> jsval \<times> state" where
  "loadTokenCache s =
     (let s1 = s\<lparr>effects := effects s @ [StoreRead]\<rparr>
      in case load_read s1 of
           Inl error \<Rightarrow> (JNull, s1)
         | Inr r \<Rightarrow> r)"

subsection \<open>saveTokenCache\<close>

definition writeFileSync :: "json_text \<Rightarrow> state \<Rightarrow> js_exn + state" where
  "writeFileSync d s =
     (case write_fault s of
        None \<Rightarrow> Inr (s\<lparr>token_file := FileText d, effects := effects s @ [StoreWrite]\<rparr>)
      | Some f \<Rightarrow> Inl IOError)"

text \<open>The state a failed write leaves behind.\<close>

definition write_failed :: "state \<Rightarrow> state" where
  "write_failed s =
     (case write_fault s of
        None \<Rightarrow> s
      | Some f \<Rightarrow> s\<lparr>token_file := f, effects := effects s @ [StoreWrite]\<rparr>)"

definition saveTokenCache :: "jsval \<Rightarrow> state \<Rightarrow> bool \<times> state" where
  "saveTokenCache tokens s =
     (case writeFileSync (JSON_stringify tokens) s of
        Inr s1 \<Rightarrow> (True, s1\<lparr>cachedTokens := tokens\<rparr>)
      | Inl error \<Rightarrow> (False, write_failed s))"

subsection \<open>refreshAccessToken\<close>

datatype refresh_error = NoRefreshToken | ParseFailure | HttpStatus int | RequestError

text \<open>
  The promise as the executor leaves it: rejected at once, or waiting for the answer
  to the request it has sent, with the record \<open>tokens\<close> in the closure.
\<close>

datatype refresh_promise = Rejected refresh_error | Awaiting jsval

definition refreshAccessToken :: "state \<Rightarrow> refresh_promise \<times> state" where
  "refreshAccessToken s =
     (let (tokens, s1) = loadTokenCache s
      in if tokens = JNull \<or> \<not> truthy (get_prop tokens ''refresh_token'')
         then (Rejected NoRefreshToken, s1)
         else (case get_prop tokens ''refresh_token'' of
                 None \<Rightarrow> (Rejected NoRefreshToken, s1)
               | Some refresh_token \<Rightarrow>
                   (Awaiting tokens, s1\<lparr>effects := effects s1 @ [TokenPost refresh_token]\<rparr>)))"

text \<open>What the network answers: the \<^verbatim>\<open>error\<close> event, or a status and a body.\<close>

datatype net_event = RequestFailed | Response int json_text

datatype refresh_outcome = Resolve "jsval option" | Reject refresh_error

text \<open>
  The record built from a parsed 2xx body at time \<open>now\<close>: \<^verbatim>\<open>expires_at\<close> is set, and
  the old \<^verbatim>\<open>refresh_token\<close> is kept when the body has none. Reading \<^verbatim>\<open>expires_in\<close>
  of \<^verbatim>\<open>null\<close> throws.
\<close>

definition new_record :: "runtime \<Rightarrow> jsval \<Rightarrow> int \<Rightarrow> jsval \<Rightarrow> js_exn + jsval" where
  "new_record rt tokens now tokenResponse =
     (if tokenResponse = JNull then Inl TypeError
      else case to_number rt (get_prop tokenResponse ''expires_in'') of
             Inl e \<Rightarrow> Inl e
           | Inr expires_in \<Rightarrow>
               (let expiresAt = js_add (Fin now) (js_mul expires_in (Fin 1000));
                    r = set_prop tokenResponse ''expires_at'' (JNum expiresAt)
                in if \<not> truthy (get_prop r ''refresh_token'')
                      \<and> truthy (get_prop tokens ''refresh_token'')
                   then (case get_prop tokens ''refresh_token'' of
                           None \<Rightarrow> Inr r
                         | Some old \<Rightarrow> Inr (set_prop r ''refresh_token'' old))
                   else Inr r))"

text \<open>
  The \<^verbatim>\<open>try\<close> block of the \<^verbatim>\<open>end\<close> handler on a 2xx status. The result of
  \<open>saveTokenCache\<close> is not looked at.
\<close>

definition on_success :: "runtime \<Rightarrow> jsval \<Rightarrow> int \<Rightarrow> json_text \<Rightarrow> state \<Rightarrow> js_exn + (jsval option \<times> state)" where
  "on_success rt tokens now d s =
     (case JSON_parse d of
        Inl e \<Rightarrow> Inl e
      | Inr parsed \<Rightarrow>
          (case new_record rt tokens now parsed of
             Inl e \<Rightarrow> Inl e
           | Inr tokenResponse \<Rightarrow>
               (let (saved, s1) = saveTokenCache tokenResponse s
                in Inr (get_prop tokenResponse ''access_token'', s1))))"

definition on_end :: "runtime \<Rightarrow> jsval \<Rightarrow> int \<Rightarrow> int \<Rightarrow> json_text \<Rightarrow> state \<Rightarrow> refresh_outcome \<times> state" where
  "on_end rt tokens now statusCode d s =
     (if statusCode \<ge> 200 \<and> statusCode < 300
      then (case on_success rt tokens now d s of
              Inl error \<Rightarrow> (Reject ParseFailure, s)
            | Inr (access_token, s1) \<Rightarrow> (Resolve access_token, s1))
      else (Reject (HttpStatus statusCode), s))"

text \<open>How the promise settles when the network answers with \<open>ev\<close> at time \<open>now\<close>.\<close>

definition settle :: "runtime \<Rightarrow> refresh_promise \<Rightarrow> int \<Rightarrow> net_event \<Rightarrow> state \<Rightarrow> refresh_outcome \<times> state" where
  "settle rt p now ev s =
     (case p of
        Rejected e \<Rightarrow> (Reject e, s)
      | Awaiting tokens \<Rightarrow>
          (case ev of
             RequestFailed \<Rightarrow> (Reject RequestError, s)
           | Response statusCode d \<Rightarrow> on_end rt tokens now statusCode d s))"

subsection \<open>getAccessToken\<close>

text \<open>
  \<^verbatim>\<open>now > (tokens.expires_at || 0) - (5 * 60 * 1000)\<close>, which the source writes out
  once for the cached record and once for the loaded one.
\<close>

definition about_to_expire :: "runtime \<Rightarrow> int \<Rightarrow> jsval \<Rightarrow> js_exn + bool" where
  "about_to_expire rt now tokens =
     (let expiresAt = (if truthy (get_prop tokens ''expires_at'')
                       then get_prop tokens ''expires_at''
                       else Some (JNum (Fin 0)))
      in case to_number rt expiresAt of
           Inl e \<Rightarrow> Inl e
         | Inr n \<Rightarrow> Inr (js_gt (Fin now) (js_sub n (Fin (5 * 60 * 1000)))))"

text \<open>
  The value returned: a token (or \<^verbatim>\<open>null\<close>) at once, or the promise of a refresh
  with \<^verbatim>\<open>.then(newToken => newToken).catch(error => null)\<close> on it.
\<close>

datatype token_result = Immediate "jsval option" | Pending refresh_promise

definition serve :: "runtime \<Rightarrow> int \<Rightarrow> jsval \<Rightarrow> state \<Rightarrow> (js_exn + token_result) \<times> state" where
  "serve rt now tokens s =
     (case about_to_expire rt now tokens of
        Inl e \<Rightarrow> (Inl e, s)
      | Inr True \<Rightarrow> (let (p, s1) = refreshAccessToken s in (Inr (Pending p), s1))
      | Inr False \<Rightarrow> (Inr (Immediate (get_prop tokens ''access_token'')), s))"

definition getAccessToken :: "runtime \<Rightarrow> int \<Rightarrow> state \<Rightarrow> (js_exn + token_result) \<times> state" where
  "getAccessToken rt now s =
     (if truthy (Some (cachedTokens s)) \<and> truthy (get_prop (cachedTokens s) ''access_token'')
      then serve rt now (cachedTokens s) s
      else (let (tokens, s1) = loadTokenCache s
            in if \<not> truthy (Some tokens) then (Inr (Immediate (Some JNull)), s1)
               else serve rt now tokens s1))"

definition token_of :: "refresh_outcome \<Rightarrow> jsval option" where
  "token_of out = (case out of Resolve newToken \<Rightarrow> newToken | Reject error \<Rightarrow> Some JNull)"

text \<open>\<^verbatim>\<open>await\<close> on the value of \<open>getAccessToken\<close>.\<close>

definition await :: "runtime \<Rightarrow> token_result \<Rightarrow> int \<Rightarrow> net_event \<Rightarrow> state \<Rightarrow> jsval option \<times> state" where
  "await rt r now ev s =
     (case r of
        Immediate v \<Rightarrow> (v, s)
      | Pending p \<Rightarrow> (let (out, s1) = settle rt p now ev s in (token_of out, s1)))"

section \<open>The authentication module\<close>

datatype auth_error = AuthenticationRequired

text \<open>
  One call, run to its end: \<open>now\<close> is the time of the call, and \<open>ev\<close> at time \<open>later\<close>
  is the network's answer if the call sends a request.
\<close>

definition ensureAuthenticated ::
  "runtime \<Rightarrow> bool \<Rightarrow> int \<Rightarrow> int \<Rightarrow> net_event \<Rightarrow> state \<Rightarrow> (auth_error + jsval) \<times> state" where
  "ensureAuthenticated rt forceNew now later ev s =
     (if forceNew then (Inl AuthenticationRequired, s)
      else case getAccessToken rt now s of
             (Inl error, s1) \<Rightarrow> (Inl AuthenticationRequired, s1)
           | (Inr r, s1) \<Rightarrow>
               (let (accessToken, s2) = await rt r later ev s1
                in if \<not> truthy accessToken then (Inl AuthenticationRequired, s2)
                   else (case accessToken of
                           None \<Rightarrow> (Inl AuthenticationRequired, s2)
                         | Some v \<Rightarrow> (Inr v, s2))))"

text \<open>
  Calls of \<open>getAccessToken\<close> made one after the other at the times \<open>nows\<close>, before the
  answer to any of them arrives: what concurrent callers are on one thread.
\<close>

fun concurrent_calls :: "runtime \<Rightarrow> int list \<Rightarrow> state \<Rightarrow> (js_exn + token_result) list \<times> state" where
  "concurrent_calls rt [] s = ([], s)"
| "concurrent_calls rt (now # nows) s =
     (let (r, s1) = getAccessToken rt now s;
          (rs, s2) = concurrent_calls rt nows s1
      in (r # rs, s2))"

section \<open>Basic facts\<close>

lemma half_even_int: "half_even (of_int k) = k"
  by (simp add: half_even_def)

lemma to_num_int: "to_num (of_int k) = Fin k"
  by (simp add: to_num_def)

lemma bitlen_pos: "0 < x \<Longrightarrow> 0 < bitlen x"
  using bitlen_eq_zero_iff [of x] bitlen_nonneg [of x] by linarith

lemma bitlen_lower:
  assumes "0 < x"
  shows "(power_int 2 (bitlen x - 1) :: rat) \<le> of_int x"
proof -
  from bitlen_bounds [OF assms] have a: "2 ^ nat (bitlen x - 1) \<le> x" ..
  from bitlen_pos [OF assms] have "0 \<le> bitlen x - 1" by simp
  then have "power_int (2::rat) (bitlen x - 1) = of_int (2 ^ nat (bitlen x - 1))"
    by (simp add: power_int_def)
  also from a have "\<dots> \<le> of_int x" by (simp only: of_int_le_iff)
  finally show ?thesis .
qed

lemma bitlen_upper:
  assumes "0 < x"
  shows "(of_int x :: rat) < power_int 2 (bitlen x)"
proof -
  from bitlen_bounds [OF assms] have a: "x < 2 ^ nat (bitlen x)" ..
  from bitlen_pos [OF assms] have "0 \<le> bitlen x" by simp
  then have "power_int (2::rat) (bitlen x) = of_int (2 ^ nat (bitlen x))"
    by (simp add: power_int_def)
  moreover from a have "(of_int x :: rat) < of_int (2 ^ nat (bitlen x))"
    by (simp only: of_int_less_iff)
  ultimately show ?thesis by simp
qed

lemma ilog2_bounds:
  assumes "0 < a"
  shows "power_int 2 (ilog2 a) \<le> a \<and> a < power_int 2 (ilog2 a + 1)"
proof -
  obtain p d where pd: "quotient_of a = (p, d)" by (cases "quotient_of a")
  then have d: "0 < d" and a: "a = of_int p / of_int d"
    using quotient_of_denom_pos [OF pd] quotient_of_div [OF pd] by simp_all
  with assms have p: "0 < p"
    by (simp add: zero_less_divide_iff)
  let ?n = "bitlen p - bitlen d"
  have lo: "power_int 2 (?n - 1) \<le> a"
  proof -
    have "?n - 1 = (bitlen p - 1) - bitlen d" by simp
    then have "power_int (2::rat) (?n - 1) = power_int 2 ((bitlen p - 1) - bitlen d)"
      by (rule arg_cong)
    also have "\<dots> = power_int 2 (bitlen p - 1) / power_int 2 (bitlen d)"
      by (rule power_int_diff) simp
    also have "\<dots> \<le> of_int p / power_int 2 (bitlen d)"
      using bitlen_lower [OF p] by (simp add: divide_right_mono)
    also have "\<dots> \<le> of_int p / of_int d"
      using bitlen_upper [OF d] p d by (simp add: frac_le)
    finally show ?thesis by (simp add: a)
  qed
  have hi: "a < power_int 2 (?n + 1)"
  proof -
    have "a = of_int p / of_int d" by (rule a)
    also have "\<dots> < power_int 2 (bitlen p) / of_int d"
      using bitlen_upper [OF p] d by (simp add: divide_strict_right_mono)
    also have "\<dots> \<le> power_int 2 (bitlen p) / power_int 2 (bitlen d - 1)"
      using bitlen_lower [OF d] by (simp add: frac_le)
    also have "\<dots> = power_int (2::rat) (bitlen p - (bitlen d - 1))"
      by (rule power_int_diff [symmetric]) simp
    also have "\<dots> = power_int 2 (?n + 1)"
      by (rule arg_cong [where f = "power_int 2"]) simp
    finally show ?thesis .
  qed
  show ?thesis
  proof (cases "power_int 2 ?n \<le> a")
    case True
    with pd have "ilog2 a = ?n" by (simp add: ilog2_def)
    with True hi show ?thesis by simp
  next
    case False
    with pd have "ilog2 a = ?n - 1" by (simp add: ilog2_def)
    with False lo show ?thesis by simp
  qed
qed


lemma round_double_exact:
  assumes q: "q \<noteq> 0" and e: "max (ilog2 \<bar>q\<bar> - 52) (- 1074) = e"
    and m: "\<bar>q\<bar> = of_int m * power_int 2 e" and small: "\<bar>q\<bar> < power_int 2 1024"
  shows "round_double q = to_num q"
proof -
  have "\<bar>q\<bar> / power_int 2 e = of_int m" using m by simp
  then have "of_int (half_even (\<bar>q\<bar> / power_int 2 e)) * power_int 2 e = \<bar>q\<bar>"
    using m by (simp add: half_even_int)
  with q e small show ?thesis
    by (auto simp: round_double_def Let_def)
qed

lemma round_double_int:
  assumes "\<bar>k\<bar> \<le> 2 ^ 53"
  shows "round_double (of_int k) = Fin k"
proof (cases "k = 0")
  case True
  then show ?thesis by (simp add: round_double_def)
next
  case False
  let ?a = "\<bar>of_int k :: rat\<bar>"
  let ?E = "ilog2 ?a"
  from False have a1: "1 \<le> ?a" by (simp flip: of_int_abs)
  from assms have a53: "?a \<le> 2 ^ 53"
  proof -
    from assms have "(of_int \<bar>k\<bar> :: rat) \<le> of_int (2 ^ 53)" by (simp only: of_int_le_iff)
    then show ?thesis by simp
  qed
  from a1 have "0 < ?a" by simp
  from ilog2_bounds [OF this]
  have lo: "power_int 2 ?E \<le> ?a" and hi: "?a < power_int 2 (?E + 1)" by simp_all
  have E0: "0 \<le> ?E"
  proof (rule ccontr)
    assume "\<not> 0 \<le> ?E"
    then have "?E + 1 \<le> 0" by simp
    then have "power_int (2::rat) (?E + 1) \<le> power_int 2 0"
      by (intro power_int_increasing) simp_all
    with hi a1 show False by simp
  qed
  have E53: "?E \<le> 53"
  proof (rule ccontr)
    assume "\<not> ?E \<le> 53"
    then have "54 \<le> ?E" by simp
    then have "power_int (2::rat) 54 \<le> power_int 2 ?E"
      by (intro power_int_increasing) simp_all
    with lo a53 show False by simp
  qed
  from E0 have e: "max (?E - 52) (- 1074) = ?E - 52" by simp
  have "\<exists>m. ?a = of_int m * power_int 2 (?E - 52)"
  proof (cases "?E \<le> 52")
    case True
    then have "power_int (2::rat) (?E - 52) = 1 / 2 ^ nat (52 - ?E)"
      by (simp add: power_int_def field_simps) 
    then have "?a = of_int (\<bar>k\<bar> * 2 ^ nat (52 - ?E)) * power_int 2 (?E - 52)"
      by simp
    then show ?thesis ..
  next
    case False
    with E53 have E: "?E = 53" by simp
    with lo have "2 ^ 53 \<le> ?a" by simp
    with a53 have "?a = 2 ^ 53" by simp
    with E have "?a = of_int (2 ^ 52) * power_int 2 (?E - 52)" by simp
    then show ?thesis ..
  qed
  then obtain m where m: "?a = of_int m * power_int 2 (?E - 52)" ..
  from a53 have small: "?a < power_int 2 1024" by simp
  from False have "(of_int k :: rat) \<noteq> 0" by simp
  from round_double_exact [OF this e m small] show ?thesis
    by (simp add: to_num_int)
qed

lemma half_even_ge: "of_int n \<le> q \<Longrightarrow> n \<le> half_even q"
proof -
  assume "of_int n \<le> q"
  then have "n \<le> \<lfloor>q\<rfloor>" by (simp add: le_floor_iff)
  moreover have "\<lfloor>q\<rfloor> \<le> half_even q" by (simp add: half_even_def Let_def)
  ultimately show ?thesis by simp
qed

lemma round_double_large:
  assumes "2 ^ 53 \<le> q"
  shows "round_double q = PosInf \<or> (\<exists>i. round_double q = Fin i \<and> 2 ^ 53 \<le> i)"
proof -
  from assms have q0: "0 < q" by (rule less_le_trans [rotated]) simp
  let ?E = "ilog2 \<bar>q\<bar>"
  from q0 have aq: "\<bar>q\<bar> = q" by simp
  from ilog2_bounds [of "\<bar>q\<bar>"] q0
  have lo: "power_int 2 ?E \<le> q" and hi: "q < power_int 2 (?E + 1)" by (simp_all add: aq)
  have E: "53 \<le> ?E"
  proof (rule ccontr)
    assume "\<not> 53 \<le> ?E"
    then have "?E + 1 \<le> 53" by simp
    then have "power_int (2::rat) (?E + 1) \<le> power_int 2 53"
      by (intro power_int_increasing) simp_all
    with hi assms show False by simp
  qed
  then have e: "max (?E - 52) (- 1074) = ?E - 52" by simp
  let ?e = "?E - 52"
  let ?m = "half_even (q / power_int 2 ?e)"
  from E have epos: "0 \<le> ?e - 1" by simp
  have p: "power_int (2::rat) ?e = of_int (2 ^ nat ?e)"
    using E by (simp add: power_int_def)
  have "(of_int (2 ^ 52) :: rat) = power_int 2 52" by simp
  also have "\<dots> = power_int 2 ?E / power_int 2 ?e"
    by (subst power_int_diff [symmetric]) simp_all
  also have "\<dots> \<le> q / power_int 2 ?e"
    using lo by (simp add: divide_right_mono)
  finally have m: "2 ^ 52 \<le> ?m" by (rule half_even_ge)
  let ?r = "of_int ?m * power_int (2::rat) ?e"
  have r_int: "?r = of_int (?m * 2 ^ nat ?e)" by (simp add: p)
  have "(2::int) ^ 53 = 2 ^ 52 * 2 ^ 1" by simp
  also have "\<dots> \<le> ?m * 2 ^ nat ?e"
  proof (rule mult_mono)
    show "2 ^ 52 \<le> ?m" by (rule m)
    from E have "1 \<le> nat ?e" by simp
    then show "(2::int) ^ 1 \<le> 2 ^ nat ?e" by (intro power_increasing) simp_all
    from m show "0 \<le> ?m" by simp
  qed simp
  finally have big: "2 ^ 53 \<le> ?m * 2 ^ nat ?e" .
  show ?thesis
  proof (cases "power_int 2 1024 \<le> ?r")
    case True
    with q0 e show ?thesis by (simp add: round_double_def Let_def aq)
  next
    case False
    with q0 e have "round_double q = to_num ?r"
      by (simp add: round_double_def Let_def aq)
    moreover have "to_num ?r = Fin (?m * 2 ^ nat ?e)"
      unfolding r_int by (rule to_num_int)
    ultimately have "round_double q = Fin (?m * 2 ^ nat ?e)" by (rule trans)
    with big show ?thesis by blast
  qed
qed


lemma js_neg_neg: "js_neg (js_neg x) = x"
  by (cases x) simp_all

lemma round_double_neg: "round_double (- q) = js_neg (round_double q)"
proof -
  have "to_num (- r) = js_neg (to_num r)" for r
  proof -
    have "of_int \<lfloor>- r\<rfloor> = - r \<longleftrightarrow> of_int \<lfloor>r\<rfloor> = r"
      by (metis floor_of_int of_int_minus minus_minus)
    moreover have "of_int \<lfloor>r\<rfloor> = r \<Longrightarrow> \<lfloor>- r\<rfloor> = - \<lfloor>r\<rfloor>"
      by (metis floor_of_int of_int_minus)
    ultimately show ?thesis by (auto simp: to_num_def)
  qed
  then show ?thesis
    by (auto simp: round_double_def Let_def js_neg_neg)
qed

text \<open>The exact difference of two integers decides the comparison as the rounded one does.\<close>

lemma js_sub_compares_as_rounded:
  assumes "\<bar>now\<bar> < 2 ^ 53"
  shows "js_gt (Fin now) (round_double (of_int (a - b))) = js_gt (Fin now) (js_sub (Fin a) (Fin b))"
proof -
  let ?x = "a - b"
  consider "\<bar>?x\<bar> \<le> 2 ^ 53" | "2 ^ 53 < ?x" | "?x < - (2 ^ 53)" by linarith
  then show ?thesis
  proof cases
    case 1
    then have "round_double (of_int ?x) = Fin ?x" by (rule round_double_int)
    then show ?thesis by (simp only: js_sub.simps)
  next
    case 2
    then have "(2::rat) ^ 53 \<le> of_int ?x"
    proof -
      from 2 have "(of_int (2 ^ 53) :: rat) \<le> of_int ?x" by (simp only: of_int_le_iff)
      then show ?thesis by simp
    qed
    from round_double_large [OF this] 2 assms show ?thesis by auto
  next
    case 3
    then have "(2::rat) ^ 53 \<le> of_int (- ?x)"
    proof -
      from 3 have "(of_int (2 ^ 53) :: rat) \<le> of_int (- ?x)" by (simp only: of_int_le_iff)
      then show ?thesis by simp
    qed
    from round_double_large [OF this] round_double_neg [of "of_int (- ?x)"] 3 assms
    show ?thesis by auto
  qed
qed

lemma js_mul_exact: "\<bar>a * b\<bar> \<le> 2 ^ 53 \<Longrightarrow> js_mul (Fin a) (Fin b) = Fin (a * b)"
  using round_double_int [of "a * b"] by (simp add: js_mul_def infinite_num_def)

lemma js_add_exact: "\<bar>a + b\<bar> \<le> 2 ^ 53 \<Longrightarrow> js_add (Fin a) (Fin b) = Fin (a + b)"
  using round_double_int [of "a + b"] by simp

declare js_add.simps [simp del]

lemma conversion_throws_truthy: "conversion_throws v \<Longrightarrow> truthy (Some v)"
  by (cases v) auto

lemma expires_at_throws_literal:
  "(case (if truthy (get_prop r ''expires_at'') then get_prop r ''expires_at''
          else Some (JNum (Fin 0))) of
      None \<Rightarrow> False
    | Some v \<Rightarrow> conversion_throws v) = expires_at_throws r"
  by (cases "get_prop r ''expires_at''")
     (auto simp: expires_at_throws_def dest: conversion_throws_truthy)

lemma load_parse_Json:
  "load_parse (Json r) s =
     (if r = JNull then Inl TypeError
      else if \<not> truthy (get_prop r ''access_token'') then Inr (JNull, s)
      else if expires_at_throws r then Inl TypeError
      else Inr (r, s\<lparr>cachedTokens := r\<rparr>))"
  using expires_at_throws_literal [of r]
  by (auto simp: load_parse_def JSON_parse_def Let_def split: option.splits if_splits)

lemma about_to_expire_converts:
  "about_to_expire rt now r = Inr b \<Longrightarrow> \<not> expires_at_throws r"
  by (cases "get_prop r ''expires_at''"; cases "the (get_prop r ''expires_at'')")
     (auto simp: about_to_expire_def expires_at_throws_def split: if_splits sum.splits)

lemma truthy_prop_obj: "truthy (get_prop r k) \<Longrightarrow> \<exists>kvs. r = JObj kvs"
  by (cases r) auto




lemma load_parse_Malformed: "load_parse Malformed s = Inl SyntaxError"
  by (simp add: load_parse_def JSON_parse_def)

lemma loadTokenCache_eq:
  "loadTokenCache s =
     (case token_file s of
        FileText (Json r) \<Rightarrow>
          if truthy (get_prop r ''access_token'') \<and> \<not> expires_at_throws r
          then (r, s\<lparr>effects := effects s @ [StoreRead], cachedTokens := r\<rparr>)
          else (JNull, s\<lparr>effects := effects s @ [StoreRead]\<rparr>)
      | _ \<Rightarrow> (JNull, s\<lparr>effects := effects s @ [StoreRead]\<rparr>))"
proof (cases "token_file s")
  case (FileText d)
  then show ?thesis
  proof (cases d)
    case Malformed
    with FileText show ?thesis
      by (simp add: loadTokenCache_def load_read_def load_parse_Malformed)
  next
    case (Json r)
    have "truthy (get_prop r ''access_token'') \<Longrightarrow> r \<noteq> JNull" by auto
    with FileText Json show ?thesis
      by (auto simp: loadTokenCache_def load_read_def load_parse_Json Let_def)
  qed
qed (simp_all add: loadTokenCache_def load_read_def)

lemma loadTokenCache_record:
  assumes "token_file s = FileText (Json r)" and "truthy (get_prop r ''access_token'')"
    and "\<not> expires_at_throws r"
  shows "loadTokenCache s = (r, s\<lparr>effects := effects s @ [StoreRead], cachedTokens := r\<rparr>)"
  using assms by (simp add: loadTokenCache_eq)

lemma loadTokenCache_absent:
  assumes "\<forall>r. token_file s = FileText (Json r) \<and> truthy (get_prop r ''access_token'')
             \<longrightarrow> expires_at_throws r"
  shows "loadTokenCache s = (JNull, s\<lparr>effects := effects s @ [StoreRead]\<rparr>)"
  using assms
  by (auto simp: loadTokenCache_eq split: file_state.splits json_text.splits)


lemma saveTokenCache_fault:
  "write_fault s = Some f \<Longrightarrow>
   saveTokenCache r s = (False, s\<lparr>token_file := f, effects := effects s @ [StoreWrite]\<rparr>)"
  by (simp add: saveTokenCache_def writeFileSync_def write_failed_def)

lemma refreshAccessToken_sends:
  assumes "token_file s = FileText (Json r)" and "truthy (get_prop r ''access_token'')"
    and "get_prop r ''refresh_token'' = Some x" and "truthy (Some x)"
    and "\<not> expires_at_throws r"
  shows "refreshAccessToken s =
           (Awaiting r, s\<lparr>effects := effects s @ [StoreRead, TokenPost x], cachedTokens := r\<rparr>)"
proof -
  from assms(2) have "r \<noteq> JNull" by auto
  with assms show ?thesis
    by (simp add: refreshAccessToken_def loadTokenCache_record)
qed

lemma refreshAccessToken_Awaiting:
  assumes "refreshAccessToken s = (Awaiting tokens, s1)"
  shows "token_file s = FileText (Json tokens) \<and> truthy (get_prop tokens ''access_token'')
         \<and> \<not> expires_at_throws tokens
         \<and> truthy (get_prop tokens ''refresh_token'')
         \<and> (\<exists>x. get_prop tokens ''refresh_token'' = Some x
                \<and> s1 = s\<lparr>effects := effects s @ [StoreRead, TokenPost x], cachedTokens := tokens\<rparr>)"
proof (cases "\<exists>r. token_file s = FileText (Json r) \<and> truthy (get_prop r ''access_token'')
                \<and> \<not> expires_at_throws r")
  case True
  then obtain r where r: "token_file s = FileText (Json r)" "truthy (get_prop r ''access_token'')"
    "\<not> expires_at_throws r"
    by blast
  with assms show ?thesis
    by (auto simp: refreshAccessToken_def loadTokenCache_record split: if_splits option.splits)
next
  case False
  then have "loadTokenCache s = (JNull, s\<lparr>effects := effects s @ [StoreRead]\<rparr>)"
    by (intro loadTokenCache_absent) blast
  with assms show ?thesis
    by (simp add: refreshAccessToken_def)
qed

lemma on_end_success:
  assumes "200 \<le> status" and "status < 300" and "new_record rt tokens now body = Inr r"
  shows "on_end rt tokens now status (Json body) s =
           (Resolve (get_prop r ''access_token''), snd (saveTokenCache r s))"
  using assms
  by (simp add: on_end_def on_success_def JSON_parse_def split: prod.splits)






lemma settle_Reject: "settle rt p later ev s1 = (Reject e, s2) \<Longrightarrow> s2 = s1"
  by (auto simp: settle_def on_end_def split: refresh_promise.splits net_event.splits
      if_splits sum.splits prod.splits)

lemma about_to_expire_num:
  "get_prop r ''expires_at'' = Some (JNum (Fin e)) \<Longrightarrow>
   about_to_expire rt now r = Inr (now > e - 300000)"
  by (simp add: about_to_expire_def)

lemma serve_num:
  assumes "get_prop r ''expires_at'' = Some (JNum (Fin e))"
  shows "serve rt now r s =
           (if now > e - 300000
            then (Inr (Pending (fst (refreshAccessToken s))), snd (refreshAccessToken s))
            else (Inr (Immediate (get_prop r ''access_token'')), s))"
  by (simp add: serve_def about_to_expire_num [OF assms] split: prod.splits)

lemma serve_Pending:
  "serve rt now tokens s = (Inr (Pending p), s1) \<Longrightarrow> refreshAccessToken s = (p, s1)"
  by (auto simp: serve_def split: sum.splits bool.splits prod.splits if_splits)

lemma loadTokenCache_file: "token_file (snd (loadTokenCache s)) = token_file s"
  by (auto simp: loadTokenCache_eq split: file_state.splits json_text.splits)

lemma loadTokenCache_cache:
  "cachedTokens (snd (loadTokenCache s)) = cachedTokens s
   \<or> token_file s = FileText (Json (cachedTokens (snd (loadTokenCache s))))"
  by (auto simp: loadTokenCache_eq split: file_state.splits json_text.splits)

lemma refreshAccessToken_file: "token_file (snd (refreshAccessToken s)) = token_file s"
  using loadTokenCache_file [of s]
  by (auto simp: refreshAccessToken_def split: prod.splits option.splits)

lemma refreshAccessToken_cache:
  "cachedTokens (snd (refreshAccessToken s)) = cachedTokens s
   \<or> token_file s = FileText (Json (cachedTokens (snd (refreshAccessToken s))))"
  using loadTokenCache_cache [of s]
  by (auto simp: refreshAccessToken_def split: prod.splits option.splits)

lemma getAccessToken_Pending:
  assumes "getAccessToken rt now s = (Inr (Pending p), s1)"
  shows "\<exists>s0. token_file s0 = token_file s \<and> refreshAccessToken s0 = (p, s1)"
proof (cases "truthy (Some (cachedTokens s)) \<and> truthy (get_prop (cachedTokens s) ''access_token'')")
  case True
  with assms have "serve rt now (cachedTokens s) s = (Inr (Pending p), s1)"
    by (simp add: getAccessToken_def)
  then show ?thesis by (blast dest: serve_Pending)
next
  case False
  obtain tokens s0 where l: "loadTokenCache s = (tokens, s0)" by (cases "loadTokenCache s")
  with False assms have "serve rt now tokens s0 = (Inr (Pending p), s1)"
    by (auto simp: getAccessToken_def split: if_splits)
  moreover from l have "token_file s0 = token_file s"
    using loadTokenCache_file [of s] by simp
  ultimately show ?thesis by (blast dest: serve_Pending)
qed

lemma getAccessToken_Pending_state:
  assumes "getAccessToken rt now s = (Inr (Pending p), s1)"
  shows "token_file s1 = token_file s
         \<and> (cachedTokens s1 = cachedTokens s \<or> token_file s = FileText (Json (cachedTokens s1)))"
proof (cases "truthy (Some (cachedTokens s)) \<and> truthy (get_prop (cachedTokens s) ''access_token'')")
  case True
  with assms have "serve rt now (cachedTokens s) s = (Inr (Pending p), s1)"
    by (simp add: getAccessToken_def)
  then have "refreshAccessToken s = (p, s1)" by (rule serve_Pending)
  with refreshAccessToken_file [of s] refreshAccessToken_cache [of s] show ?thesis by simp
next
  case False
  obtain tokens s0 where l: "loadTokenCache s = (tokens, s0)" by (cases "loadTokenCache s")
  with False assms have "serve rt now tokens s0 = (Inr (Pending p), s1)"
    by (auto simp: getAccessToken_def split: if_splits)
  then have r: "refreshAccessToken s0 = (p, s1)" by (rule serve_Pending)
  from l loadTokenCache_file [of s] loadTokenCache_cache [of s]
  have "token_file s0 = token_file s"
    and "cachedTokens s0 = cachedTokens s \<or> token_file s = FileText (Json (cachedTokens s0))"
    by simp_all
  with r refreshAccessToken_file [of s0] refreshAccessToken_cache [of s0] show ?thesis
    by auto
qed

lemma getAccessToken_cached_expiring:
  assumes "cachedTokens s = r" and "token_file s = FileText (Json r)"
    and "truthy (get_prop r ''access_token'')"
    and "get_prop r ''refresh_token'' = Some x" and "truthy (Some x)"
    and "about_to_expire rt now r = Inr True"
  shows "getAccessToken rt now s =
           (Inr (Pending (Awaiting r)), s\<lparr>effects := effects s @ [StoreRead, TokenPost x]\<rparr>)"
proof -
  from assms(3) obtain kvs where "r = JObj kvs" by (auto dest: truthy_prop_obj)
  with assms(1) have c: "truthy (Some (cachedTokens s))" by simp
  from assms(6) have n: "\<not> expires_at_throws r" by (rule about_to_expire_converts)
  have "s\<lparr>effects := effects s @ [StoreRead, TokenPost x], cachedTokens := r\<rparr>
        = s\<lparr>effects := effects s @ [StoreRead, TokenPost x]\<rparr>"
    using assms(1) by simp
  with c n assms show ?thesis
    by (simp add: getAccessToken_def serve_def refreshAccessToken_sends)
qed

lemma posts_post: "posts (s\<lparr>effects := effects s @ [StoreRead, TokenPost x]\<rparr>) = posts s @ [x]"
  by (simp add: posts_def)

section \<open>The token store\<close>

text \<open>
  C6, as the code has it. \<open>loadTokenCache\<close> never raises: a missing file, a file
  that cannot be read (the exception of the outer block), text that does not parse,
  the text \<^verbatim>\<open>null\<close> and a record whose \<^verbatim>\<open>expires_at\<close> cannot be printed (the
  exceptions of the inner block) all give \<^verbatim>\<open>null\<close>. The field check looks at
  \<^verbatim>\<open>access_token\<close> only: a parsed value is returned exactly when its
  \<^verbatim>\<open>access_token\<close> is truthy and its \<^verbatim>\<open>expires_at\<close> can be printed, whether or not
  it has a \<^verbatim>\<open>refresh_token\<close> or an \<^verbatim>\<open>expires_at\<close>; and it is cached exactly then.
\<close>

theorem loadTokenCache_result:
  "fst (loadTokenCache s) =
     (case token_file s of
        FileText (Json r) \<Rightarrow>
          if truthy (get_prop r ''access_token'') \<and> \<not> expires_at_throws r then r else JNull
      | _ \<Rightarrow> JNull)
   \<and> cachedTokens (snd (loadTokenCache s)) =
     (if fst (loadTokenCache s) = JNull then cachedTokens s else fst (loadTokenCache s))"
  by (auto simp: loadTokenCache_eq split: file_state.splits json_text.splits)

theorem loadTokenCache_result_witness:
  "fst (loadTokenCache
      \<lparr>cachedTokens = JNull, token_file = FileText Malformed,
       write_fault = None, effects = []\<rparr>) = JNull
   \<and> fst (loadTokenCache
      \<lparr>cachedTokens = JNull,
       token_file = FileText (Json (JObj [(''access_token'', JStr ''A1''),
                      (''expires_at'', JObj [(''toString'', JNum (Fin 1))])])),
       write_fault = None, effects = []\<rparr>) = JNull
   \<and> cachedTokens (snd (loadTokenCache
      \<lparr>cachedTokens = JNull,
       token_file = FileText (Json (JObj [(''access_token'', JStr ''A1''),
                      (''expires_at'', JObj [(''toString'', JNum (Fin 1))])])),
       write_fault = None, effects = []\<rparr>)) = JNull
   \<and> fst (loadTokenCache
      \<lparr>cachedTokens = JNull,
       token_file = FileText (Json (JObj [(''access_token'', JStr ''A1''),
                      (''refresh_token'', JStr ''R1''), (''expires_at'', JNum (Fin 0))])),
       write_fault = None, effects = []\<rparr>)
     = JObj [(''access_token'', JStr ''A1''),
             (''refresh_token'', JStr ''R1''), (''expires_at'', JNum (Fin 0))]"
  using loadTokenCache_result [of
      "\<lparr>cachedTokens = JNull, token_file = FileText Malformed,
       write_fault = None, effects = []\<rparr>"]
    loadTokenCache_result [of
      "\<lparr>cachedTokens = JNull,
       token_file = FileText (Json (JObj [(''access_token'', JStr ''A1''),
                      (''expires_at'', JObj [(''toString'', JNum (Fin 1))])])),
       write_fault = None, effects = []\<rparr>"]
    loadTokenCache_result [of
      "\<lparr>cachedTokens = JNull,
       token_file = FileText (Json (JObj [(''access_token'', JStr ''A1''),
                      (''refresh_token'', JStr ''R1''), (''expires_at'', JNum (Fin 0))])),
       write_fault = None, effects = []\<rparr>"]
  by (simp add: expires_at_throws_def)

text \<open>
  C6, as the claim states it, fails: a file that holds only an \<^verbatim>\<open>access_token\<close> is
  returned as a record, though it has neither \<^verbatim>\<open>refresh_token\<close> nor \<^verbatim>\<open>expires_at\<close>.
\<close>

theorem load_required_fields_counterexample:
  "fst (loadTokenCache
      \<lparr>cachedTokens = JNull,
       token_file = FileText (Json (JObj [(''access_token'', JStr ''A1'')])),
       write_fault = None, effects = []\<rparr>) = JObj [(''access_token'', JStr ''A1'')]
   \<and> get_prop (JObj [(''access_token'', JStr ''A1'')]) ''refresh_token'' = None
   \<and> get_prop (JObj [(''access_token'', JStr ''A1'')]) ''expires_at'' = None"
  by (simp add: loadTokenCache_eq expires_at_throws_def)

text \<open>
  C10. \<open>saveTokenCache\<close> reports success exactly when the write succeeds, and the
  cache holds the saved record exactly then: after a failed save the cache is what it
  was before.
\<close>

theorem saveTokenCache_cache:
  "fst (saveTokenCache tokens s) = (write_fault s = None) \<and>
   cachedTokens (snd (saveTokenCache tokens s)) =
     (if write_fault s = None then tokens else cachedTokens s)"
  by (auto simp: saveTokenCache_def writeFileSync_def write_failed_def split: option.splits)

theorem saveTokenCache_cache_witness:
  "fst (saveTokenCache (JObj [(''access_token'', JStr ''A2'')])
      \<lparr>cachedTokens = JObj [(''access_token'', JStr ''A1'')],
       token_file = FileMissing, write_fault = Some FileMissing, effects = []\<rparr>) = False
   \<and> cachedTokens (snd (saveTokenCache (JObj [(''access_token'', JStr ''A2'')])
      \<lparr>cachedTokens = JObj [(''access_token'', JStr ''A1'')],
       token_file = FileMissing, write_fault = Some FileMissing, effects = []\<rparr>))
     = JObj [(''access_token'', JStr ''A1'')]"
  using saveTokenCache_cache [of "JObj [(''access_token'', JStr ''A2'')]"
      "\<lparr>cachedTokens = JObj [(''access_token'', JStr ''A1'')],
       token_file = FileMissing, write_fault = Some FileMissing, effects = []\<rparr>"]
  by simp

section \<open>The refresh\<close>

text \<open>
  C7. When the store holds no record, or a record without a truthy
  \<^verbatim>\<open>refresh_token\<close>, \<open>refreshAccessToken\<close> rejects at once with "No refresh token
  available": no request is posted, and the promise stays rejected whatever the
  network would answer.
\<close>

theorem refresh_without_token:
  assumes "\<forall>r. token_file s = FileText (Json r) \<and> truthy (get_prop r ''access_token'')
             \<longrightarrow> \<not> truthy (get_prop r ''refresh_token'')"
  shows "fst (refreshAccessToken s) = Rejected NoRefreshToken
         \<and> posts (snd (refreshAccessToken s)) = posts s
         \<and> settle rt (fst (refreshAccessToken s)) later ev s' = (Reject NoRefreshToken, s')"
proof (cases "\<exists>r. token_file s = FileText (Json r) \<and> truthy (get_prop r ''access_token'')
                \<and> \<not> expires_at_throws r")
  case True
  then obtain r where r: "token_file s = FileText (Json r)" "truthy (get_prop r ''access_token'')"
    "\<not> expires_at_throws r"
    by blast
  with assms have "\<not> truthy (get_prop r ''refresh_token'')" by blast
  with r show ?thesis
    by (simp add: refreshAccessToken_def loadTokenCache_record posts_def settle_def)
next
  case False
  then have "loadTokenCache s = (JNull, s\<lparr>effects := effects s @ [StoreRead]\<rparr>)"
    by (intro loadTokenCache_absent) blast
  then show ?thesis
    by (simp add: refreshAccessToken_def posts_def settle_def)
qed

theorem refresh_without_token_witness:
  "fst (refreshAccessToken
      \<lparr>cachedTokens = JNull,
       token_file = FileText (Json (JObj [(''access_token'', JStr ''A1'')])),
       write_fault = None, effects = []\<rparr>) = Rejected NoRefreshToken
   \<and> posts (snd (refreshAccessToken
      \<lparr>cachedTokens = JNull,
       token_file = FileText (Json (JObj [(''access_token'', JStr ''A1'')])),
       write_fault = None, effects = []\<rparr>)) = []"
  using refresh_without_token [of
      "\<lparr>cachedTokens = JNull,
       token_file = FileText (Json (JObj [(''access_token'', JStr ''A1'')])),
       write_fault = None, effects = []\<rparr>"]
  by (simp add: posts_def)


lemma rounded_expires_at:
  "js_add (Fin 1001) (js_mul (Fin 9007199254741) (Fin 1000)) = Fin 9007199254742000"
  by code_simp





text \<open>
  C1, as the code has it. On a 2xx answer whose body gives a record \<open>r\<close>, the
  refresh resolves with the \<^verbatim>\<open>access_token\<close> of \<open>r\<close> and leaves the state
  \<open>saveTokenCache\<close> leaves, whether or not the write succeeds: when it fails, the
  save reports \<open>False\<close>, the cache is what it was, and the token is returned all the
  same.
\<close>

theorem refresh_ignores_save:
  assumes "200 \<le> status" and "status < 300" and "new_record rt tokens now body = Inr r"
  shows "settle rt (Awaiting tokens) now (Response status (Json body)) s
           = (Resolve (get_prop r ''access_token''), snd (saveTokenCache r s))
         \<and> (write_fault s \<noteq> None \<longrightarrow>
              \<not> fst (saveTokenCache r s)
              \<and> cachedTokens (snd (saveTokenCache r s)) = cachedTokens s)"
  using on_end_success [OF assms]
  by (auto simp: settle_def saveTokenCache_fault)

theorem refresh_ignores_save_witness:
  "settle (\<lambda>v. NaN)
      (Awaiting (JObj [(''access_token'', JStr ''A1''), (''refresh_token'', JStr ''R1'')]))
      1000
      (Response 200 (Json (JObj [(''access_token'', JStr ''A2''), (''expires_in'', JNum (Fin 3600))])))
      \<lparr>cachedTokens = JNull, token_file = FileMissing,
       write_fault = Some FileMissing, effects = []\<rparr>
   = (Resolve (Some (JStr ''A2'')),
      \<lparr>cachedTokens = JNull, token_file = FileMissing,
       write_fault = Some FileMissing, effects = [StoreWrite]\<rparr>)"
proof -
  let ?old = "JObj [(''access_token'', JStr ''A1''), (''refresh_token'', JStr ''R1'')]"
  let ?body = "JObj [(''access_token'', JStr ''A2''), (''expires_in'', JNum (Fin 3600))]"
  let ?r = "JObj [(''access_token'', JStr ''A2''), (''expires_in'', JNum (Fin 3600)),
                  (''expires_at'', JNum (Fin 3601000)), (''refresh_token'', JStr ''R1'')]"
  have a: "(200::int) \<le> 200" and b: "(200::int) < 300" by simp_all
  have c: "new_record (\<lambda>v. NaN) ?old 1000 ?body = Inr ?r"
    by (simp add: new_record_def js_mul_exact js_add_exact)
  from refresh_ignores_save [OF a b c] show ?thesis
    by (simp add: saveTokenCache_def writeFileSync_def write_failed_def)
qed

text \<open>
  C1, as the claim states it, fails: the write fails and leaves the old file, the save
  of the new record reports \<open>False\<close>, and the refresh resolves with the new access
  token \<^verbatim>\<open>A2\<close>, which \<open>ensureAuthenticated\<close> hands to its caller.
\<close>

theorem refresh_save_failed_counterexample:
  "settle (\<lambda>v. NaN)
      (Awaiting (JObj [(''access_token'', JStr ''A1''), (''refresh_token'', JStr ''R1''),
                       (''expires_at'', JNum (Fin 0))]))
      2000
      (Response 200 (Json (JObj [(''access_token'', JStr ''A2''), (''expires_in'', JNum (Fin 3600))])))
      \<lparr>cachedTokens = JObj [(''access_token'', JStr ''A1''), (''refresh_token'', JStr ''R1''),
                            (''expires_at'', JNum (Fin 0))],
       token_file = FileText (Json (JObj [(''access_token'', JStr ''A1''),
                      (''refresh_token'', JStr ''R1''), (''expires_at'', JNum (Fin 0))])),
       write_fault = Some (FileText (Json (JObj [(''access_token'', JStr ''A1''),
                      (''refresh_token'', JStr ''R1''), (''expires_at'', JNum (Fin 0))]))),
       effects = [StoreRead, TokenPost (JStr ''R1'')]\<rparr>
   = (Resolve (Some (JStr ''A2'')),
      \<lparr>cachedTokens = JObj [(''access_token'', JStr ''A1''), (''refresh_token'', JStr ''R1''),
                            (''expires_at'', JNum (Fin 0))],
       token_file = FileText (Json (JObj [(''access_token'', JStr ''A1''),
                      (''refresh_token'', JStr ''R1''), (''expires_at'', JNum (Fin 0))])),
       write_fault = Some (FileText (Json (JObj [(''access_token'', JStr ''A1''),
                      (''refresh_token'', JStr ''R1''), (''expires_at'', JNum (Fin 0))]))),
       effects = [StoreRead, TokenPost (JStr ''R1''), StoreWrite]\<rparr>)
   \<and> fst (saveTokenCache
        (JObj [(''access_token'', JStr ''A2''), (''expires_in'', JNum (Fin 3600)),
               (''expires_at'', JNum (Fin 3602000)), (''refresh_token'', JStr ''R1'')])
        \<lparr>cachedTokens = JObj [(''access_token'', JStr ''A1''), (''refresh_token'', JStr ''R1''),
                              (''expires_at'', JNum (Fin 0))],
         token_file = FileText (Json (JObj [(''access_token'', JStr ''A1''),
                        (''refresh_token'', JStr ''R1''), (''expires_at'', JNum (Fin 0))])),
         write_fault = Some (FileText (Json (JObj [(''access_token'', JStr ''A1''),
                        (''refresh_token'', JStr ''R1''), (''expires_at'', JNum (Fin 0))]))),
         effects = [StoreRead, TokenPost (JStr ''R1'')]\<rparr>) = False
   \<and> fst (ensureAuthenticated (\<lambda>v. NaN) False 1000 2000
        (Response 200 (Json (JObj [(''access_token'', JStr ''A2''), (''expires_in'', JNum (Fin 3600))])))
        \<lparr>cachedTokens = JObj [(''access_token'', JStr ''A1''), (''refresh_token'', JStr ''R1''),
                              (''expires_at'', JNum (Fin 0))],
         token_file = FileText (Json (JObj [(''access_token'', JStr ''A1''),
                        (''refresh_token'', JStr ''R1''), (''expires_at'', JNum (Fin 0))])),
         write_fault = Some (FileText (Json (JObj [(''access_token'', JStr ''A1''),
                        (''refresh_token'', JStr ''R1''), (''expires_at'', JNum (Fin 0))]))),
         effects = []\<rparr>) = Inr (JStr ''A2'')"
  by (simp add: ensureAuthenticated_def getAccessToken_def serve_def about_to_expire_def
      refreshAccessToken_def loadTokenCache_def load_read_def load_parse_def await_def
      token_of_def settle_def on_end_def on_success_def new_record_def JSON_parse_def
      saveTokenCache_def writeFileSync_def write_failed_def)

section \<open>Serving a token\<close>

text \<open>
  C5, as the code has it. For a record with an \<^verbatim>\<open>access_token\<close> and a number \<open>e\<close>
  as \<^verbatim>\<open>expires_at\<close>, held in the cache or loaded from the file into an empty cache,
  \<open>getAccessToken\<close> at time \<open>now\<close> starts a refresh exactly when \<open>e\<close> is less than
  5 minutes after \<open>now\<close> (or past). From 5 minutes on, the boundary included, it
  returns the record's \<^verbatim>\<open>access_token\<close> at once and posts nothing. So
  \<open>now + 5min - 1ms\<close> is refreshed and \<open>now + 5min + 1ms\<close> is served.
\<close>

theorem expiry_boundary:
  assumes "truthy (get_prop r ''access_token'')"
    and "get_prop r ''expires_at'' = Some (JNum (Fin e))"
    and "cachedTokens s = r
         \<or> (\<not> truthy (get_prop (cachedTokens s) ''access_token'') \<and> token_file s = FileText (Json r))"
  shows "((\<exists>p. fst (getAccessToken rt now s) = Inr (Pending p)) \<longleftrightarrow> e < now + 300000)
         \<and> (e \<ge> now + 300000 \<longrightarrow>
              fst (getAccessToken rt now s) = Inr (Immediate (get_prop r ''access_token''))
              \<and> posts (snd (getAccessToken rt now s)) = posts s)"
proof -
  from assms(1) obtain kvs where kvs: "r = JObj kvs" by (auto dest: truthy_prop_obj)
  from assms(3) show ?thesis
  proof
    assume c: "cachedTokens s = r"
    with kvs assms(1) have "getAccessToken rt now s = serve rt now r s"
      by (simp add: getAccessToken_def)
    then show ?thesis by (auto simp: serve_num [OF assms(2)])
  next
    assume c: "\<not> truthy (get_prop (cachedTokens s) ''access_token'') \<and> token_file s = FileText (Json r)"
    from assms(2) have "\<not> expires_at_throws r" by (simp add: expires_at_throws_def)
    with c assms(1)
    have "loadTokenCache s = (r, s\<lparr>effects := effects s @ [StoreRead], cachedTokens := r\<rparr>)"
      by (simp add: loadTokenCache_record)
    with c kvs
    have "getAccessToken rt now s
            = serve rt now r (s\<lparr>effects := effects s @ [StoreRead], cachedTokens := r\<rparr>)"
      by (simp add: getAccessToken_def)
    then show ?thesis by (auto simp: serve_num [OF assms(2)] posts_def)
  qed
qed

theorem expiry_boundary_witness:
  "(\<exists>p. fst (getAccessToken (\<lambda>v. NaN) 1000
        \<lparr>cachedTokens = JObj [(''access_token'', JStr ''A1''), (''refresh_token'', JStr ''R1''),
                              (''expires_at'', JNum (Fin 300999))],
         token_file = FileMissing, write_fault = None, effects = []\<rparr>) = Inr (Pending p))
   \<and> fst (getAccessToken (\<lambda>v. NaN) 1000
        \<lparr>cachedTokens = JObj [(''access_token'', JStr ''A1''), (''refresh_token'', JStr ''R1''),
                              (''expires_at'', JNum (Fin 301001))],
         token_file = FileMissing, write_fault = None, effects = []\<rparr>)
       = Inr (Immediate (Some (JStr ''A1'')))"
proof -
  let ?lo = "JObj [(''access_token'', JStr ''A1''), (''refresh_token'', JStr ''R1''),
                   (''expires_at'', JNum (Fin 300999))]"
  let ?hi = "JObj [(''access_token'', JStr ''A1''), (''refresh_token'', JStr ''R1''),
                   (''expires_at'', JNum (Fin 301001))]"
  let ?a = "\<lparr>cachedTokens = ?lo, token_file = FileMissing, write_fault = None, effects = []\<rparr>"
  let ?b = "\<lparr>cachedTokens = ?hi, token_file = FileMissing, write_fault = None, effects = []\<rparr>"
  have "(\<exists>p. fst (getAccessToken (\<lambda>v. NaN) 1000 ?a) = Inr (Pending p))"
    using expiry_boundary [of ?lo 300999 ?a "\<lambda>v. NaN" 1000] by simp
  moreover have "fst (getAccessToken (\<lambda>v. NaN) 1000 ?b) = Inr (Immediate (Some (JStr ''A1'')))"
    using expiry_boundary [of ?hi 301001 ?b "\<lambda>v. NaN" 1000] by simp
  ultimately show ?thesis by blast
qed

text \<open>
  C5, as the claim states it, fails on the boundary: a record that expires exactly
  5 minutes after \<open>now\<close> is within the margin, not more than 5 minutes in the future,
  and yet its token is served at once, with no effect on the state.
\<close>

theorem expiry_boundary_counterexample:
  "getAccessToken (\<lambda>v. NaN) 1000
      \<lparr>cachedTokens = JObj [(''access_token'', JStr ''A1''), (''refresh_token'', JStr ''R1''),
                            (''expires_at'', JNum (Fin (1000 + 5 * 60 * 1000)))],
       token_file = FileText (Json (JObj [(''access_token'', JStr ''A1''),
                      (''refresh_token'', JStr ''R1''),
                      (''expires_at'', JNum (Fin (1000 + 5 * 60 * 1000)))])),
       write_fault = None, effects = []\<rparr>
   = (Inr (Immediate (Some (JStr ''A1''))),
      \<lparr>cachedTokens = JObj [(''access_token'', JStr ''A1''), (''refresh_token'', JStr ''R1''),
                            (''expires_at'', JNum (Fin (1000 + 5 * 60 * 1000)))],
       token_file = FileText (Json (JObj [(''access_token'', JStr ''A1''),
                      (''refresh_token'', JStr ''R1''),
                      (''expires_at'', JNum (Fin (1000 + 5 * 60 * 1000)))])),
       write_fault = None, effects = []\<rparr>)"
  by (simp add: getAccessToken_def serve_def about_to_expire_def)

text \<open>
  C4, as the code has it. When the refresh started by a request is rejected, the
  caller gets "Authentication required", the token file is what it was, and the cache
  holds what it held or the stored record: nothing is deleted, and the stale token is
  not returned. No state records the failure: when the request had been sent and the
  record is still about to expire at the next request, that request posts the same
  refresh token again.
\<close>

theorem failed_refresh:
  assumes "getAccessToken rt now s = (Inr (Pending p), s1)"
    and "settle rt p later ev s1 = (Reject e, s2)"
  shows "ensureAuthenticated rt False now later ev s = (Inl AuthenticationRequired, s2)
         \<and> token_file s2 = token_file s
         \<and> (cachedTokens s2 = cachedTokens s \<or> token_file s = FileText (Json (cachedTokens s2)))
         \<and> (\<forall>tokens now'. p = Awaiting tokens \<and> about_to_expire rt now' tokens = Inr True \<longrightarrow>
               (\<exists>x. get_prop tokens ''refresh_token'' = Some x
                  \<and> getAccessToken rt now' s2 =
                      (Inr (Pending (Awaiting tokens)),
                       s2\<lparr>effects := effects s2 @ [StoreRead, TokenPost x]\<rparr>)))"
proof -
  from assms(2) have s2: "s2 = s1" by (rule settle_Reject)
  from assms have auth: "ensureAuthenticated rt False now later ev s = (Inl AuthenticationRequired, s2)"
    by (simp add: ensureAuthenticated_def await_def token_of_def)
  from getAccessToken_Pending_state [OF assms(1)] s2
  have kept: "token_file s2 = token_file s"
    "cachedTokens s2 = cachedTokens s \<or> token_file s = FileText (Json (cachedTokens s2))"
    by simp_all
  have again: "\<exists>x. get_prop tokens ''refresh_token'' = Some x
                  \<and> getAccessToken rt now' s2 =
                      (Inr (Pending (Awaiting tokens)),
                       s2\<lparr>effects := effects s2 @ [StoreRead, TokenPost x]\<rparr>)"
    if p: "p = Awaiting tokens" and exp: "about_to_expire rt now' tokens = Inr True"
    for tokens now'
  proof -
    from getAccessToken_Pending [OF assms(1)] p obtain s0 where
      "refreshAccessToken s0 = (Awaiting tokens, s1)" by blast
    from refreshAccessToken_Awaiting [OF this] obtain x where
      x: "token_file s0 = FileText (Json tokens)" "truthy (get_prop tokens ''access_token'')"
         "truthy (get_prop tokens ''refresh_token'')" "get_prop tokens ''refresh_token'' = Some x"
         "s1 = s0\<lparr>effects := effects s0 @ [StoreRead, TokenPost x], cachedTokens := tokens\<rparr>"
      by blast
    from x s2 have "cachedTokens s2 = tokens" "token_file s2 = FileText (Json tokens)"
      "truthy (Some x)" by simp_all
    from getAccessToken_cached_expiring [OF this(1,2) x(2,4) this(3) exp] x(4)
    show ?thesis by simp
  qed
  from auth kept again show ?thesis by blast
qed

theorem failed_refresh_witness:
  "ensureAuthenticated (\<lambda>v. NaN) False 1000 2000 (Response 400 Malformed)
      \<lparr>cachedTokens = JNull,
       token_file = FileText (Json (JObj [(''access_token'', JStr ''A1''),
                      (''refresh_token'', JStr ''R1''), (''expires_at'', JNum (Fin 0))])),
       write_fault = None, effects = []\<rparr>
   = (Inl AuthenticationRequired,
      \<lparr>cachedTokens = JObj [(''access_token'', JStr ''A1''),
                      (''refresh_token'', JStr ''R1''), (''expires_at'', JNum (Fin 0))],
       token_file = FileText (Json (JObj [(''access_token'', JStr ''A1''),
                      (''refresh_token'', JStr ''R1''), (''expires_at'', JNum (Fin 0))])),
       write_fault = None, effects = [StoreRead, StoreRead, TokenPost (JStr ''R1'')]\<rparr>)
   \<and> getAccessToken (\<lambda>v. NaN) 3000
      \<lparr>cachedTokens = JObj [(''access_token'', JStr ''A1''),
                      (''refresh_token'', JStr ''R1''), (''expires_at'', JNum (Fin 0))],
       token_file = FileText (Json (JObj [(''access_token'', JStr ''A1''),
                      (''refresh_token'', JStr ''R1''), (''expires_at'', JNum (Fin 0))])),
       write_fault = None, effects = [StoreRead, StoreRead, TokenPost (JStr ''R1'')]\<rparr>
   = (Inr (Pending (Awaiting (JObj [(''access_token'', JStr ''A1''),
                      (''refresh_token'', JStr ''R1''), (''expires_at'', JNum (Fin 0))]))),
      \<lparr>cachedTokens = JObj [(''access_token'', JStr ''A1''),
                      (''refresh_token'', JStr ''R1''), (''expires_at'', JNum (Fin 0))],
       token_file = FileText (Json (JObj [(''access_token'', JStr ''A1''),
                      (''refresh_token'', JStr ''R1''), (''expires_at'', JNum (Fin 0))])),
       write_fault = None,
       effects = [StoreRead, StoreRead, TokenPost (JStr ''R1''),
                  StoreRead, TokenPost (JStr ''R1'')]\<rparr>)"
proof -
  let ?r = "JObj [(''access_token'', JStr ''A1''),
                  (''refresh_token'', JStr ''R1''), (''expires_at'', JNum (Fin 0))]"
  let ?a = "\<lparr>cachedTokens = JNull, token_file = FileText (Json ?r),
             write_fault = None, effects = []\<rparr>"
  let ?b = "\<lparr>cachedTokens = ?r, token_file = FileText (Json ?r),
             write_fault = None, effects = [StoreRead, StoreRead, TokenPost (JStr ''R1'')]\<rparr>"
  have g: "getAccessToken (\<lambda>v. NaN) 1000 ?a = (Inr (Pending (Awaiting ?r)), ?b)"
    by (simp add: getAccessToken_def serve_def about_to_expire_def refreshAccessToken_def
        loadTokenCache_def load_read_def load_parse_def JSON_parse_def)
  have h: "settle (\<lambda>v. NaN) (Awaiting ?r) 2000 (Response 400 Malformed) ?b
             = (Reject (HttpStatus 400), ?b)"
    by (simp add: settle_def on_end_def)
  have e: "about_to_expire (\<lambda>v. NaN) 3000 ?r = Inr True"
    by (simp add: about_to_expire_def)
  note f = failed_refresh [OF g h]
  from f have first: "ensureAuthenticated (\<lambda>v. NaN) False 1000 2000 (Response 400 Malformed) ?a
                 = (Inl AuthenticationRequired, ?b)"
    by (rule conjunct1)
  from f have "\<forall>tokens now'. Awaiting ?r = Awaiting tokens
                 \<and> about_to_expire (\<lambda>v. NaN) now' tokens = Inr True \<longrightarrow>
               (\<exists>x. get_prop tokens ''refresh_token'' = Some x
                  \<and> getAccessToken (\<lambda>v. NaN) now' ?b =
                      (Inr (Pending (Awaiting tokens)),
                       ?b\<lparr>effects := effects ?b @ [StoreRead, TokenPost x]\<rparr>))"
    by blast
  with e have "\<exists>x. get_prop ?r ''refresh_token'' = Some x
                  \<and> getAccessToken (\<lambda>v. NaN) 3000 ?b =
                      (Inr (Pending (Awaiting ?r)),
                       ?b\<lparr>effects := effects ?b @ [StoreRead, TokenPost x]\<rparr>)"
    by blast
  then have "getAccessToken (\<lambda>v. NaN) 3000 ?b =
               (Inr (Pending (Awaiting ?r)),
                ?b\<lparr>effects := effects ?b @ [StoreRead, TokenPost (JStr ''R1'')]\<rparr>)"
    by simp
  with first show ?thesis by simp
qed

text \<open>
  C4, as the claim states it, fails: after a request whose refresh was answered with
  status 400, the next request posts the same refresh token a second time.
\<close>

theorem failed_refresh_retried_counterexample:
  "fst (ensureAuthenticated (\<lambda>v. NaN) False 1000 2000 (Response 400 Malformed)
      \<lparr>cachedTokens = JNull,
       token_file = FileText (Json (JObj [(''access_token'', JStr ''A1''),
                      (''refresh_token'', JStr ''R1''), (''expires_at'', JNum (Fin 0))])),
       write_fault = None, effects = []\<rparr>) = Inl AuthenticationRequired
   \<and> posts (snd (ensureAuthenticated (\<lambda>v. NaN) False 3000 4000 (Response 400 Malformed)
        (snd (ensureAuthenticated (\<lambda>v. NaN) False 1000 2000 (Response 400 Malformed)
          \<lparr>cachedTokens = JNull,
           token_file = FileText (Json (JObj [(''access_token'', JStr ''A1''),
                          (''refresh_token'', JStr ''R1''), (''expires_at'', JNum (Fin 0))])),
           write_fault = None, effects = []\<rparr>))))
     = [JStr ''R1'', JStr ''R1'']"
  by (simp add: ensureAuthenticated_def getAccessToken_def serve_def about_to_expire_def
      refreshAccessToken_def loadTokenCache_def load_read_def load_parse_def JSON_parse_def
      await_def settle_def on_end_def token_of_def posts_def)

text \<open>
  C2, as the code has it. Every call that finds the cached record about to expire
  starts a refresh of its own: \<open>N\<close> calls made before any answer arrives post the
  same refresh token \<open>N\<close> times, and each holds its own promise, settled by the answer
  to its own request.
\<close>

theorem concurrent_calls_each_refresh:
  assumes "cachedTokens s = r" and "token_file s = FileText (Json r)"
    and "truthy (get_prop r ''access_token'')"
    and "get_prop r ''refresh_token'' = Some x" and "truthy (Some x)"
    and "\<forall>now \<in> set nows. about_to_expire rt now r = Inr True"
  shows "fst (concurrent_calls rt nows s) = replicate (length nows) (Inr (Pending (Awaiting r)))
         \<and> posts (snd (concurrent_calls rt nows s)) = posts s @ replicate (length nows) x"
  using assms(1,2,6)
proof (induction nows arbitrary: s)
  case Nil
  then show ?case by simp
next
  case (Cons now nows)
  let ?s1 = "s\<lparr>effects := effects s @ [StoreRead, TokenPost x]\<rparr>"
  from Cons.prems have e: "about_to_expire rt now r = Inr True" by simp
  have g: "getAccessToken rt now s = (Inr (Pending (Awaiting r)), ?s1)"
    by (rule getAccessToken_cached_expiring [OF Cons.prems(1,2) assms(3,4,5) e])
  have "cachedTokens ?s1 = r" "token_file ?s1 = FileText (Json r)"
    "\<forall>now \<in> set nows. about_to_expire rt now r = Inr True"
    using Cons.prems by simp_all
  from Cons.IH [OF this] g show ?case
    by (auto simp: posts_post replicate_app_Cons_same split: prod.splits)
qed

theorem concurrent_calls_each_refresh_witness:
  "fst (concurrent_calls (\<lambda>v. NaN) [1000, 1001]
      \<lparr>cachedTokens = JObj [(''access_token'', JStr ''A1''),
                      (''refresh_token'', JStr ''R1''), (''expires_at'', JNum (Fin 0))],
       token_file = FileText (Json (JObj [(''access_token'', JStr ''A1''),
                      (''refresh_token'', JStr ''R1''), (''expires_at'', JNum (Fin 0))])),
       write_fault = None, effects = []\<rparr>)
     = [Inr (Pending (Awaiting (JObj [(''access_token'', JStr ''A1''),
                      (''refresh_token'', JStr ''R1''), (''expires_at'', JNum (Fin 0))]))),
        Inr (Pending (Awaiting (JObj [(''access_token'', JStr ''A1''),
                      (''refresh_token'', JStr ''R1''), (''expires_at'', JNum (Fin 0))])))]
   \<and> posts (snd (concurrent_calls (\<lambda>v. NaN) [1000, 1001]
      \<lparr>cachedTokens = JObj [(''access_token'', JStr ''A1''),
                      (''refresh_token'', JStr ''R1''), (''expires_at'', JNum (Fin 0))],
       token_file = FileText (Json (JObj [(''access_token'', JStr ''A1''),
                      (''refresh_token'', JStr ''R1''), (''expires_at'', JNum (Fin 0))])),
       write_fault = None, effects = []\<rparr>))
     = [JStr ''R1'', JStr ''R1'']"
proof -
  let ?r = "JObj [(''access_token'', JStr ''A1''),
                  (''refresh_token'', JStr ''R1''), (''expires_at'', JNum (Fin 0))]"
  let ?a = "\<lparr>cachedTokens = ?r, token_file = FileText (Json ?r),
             write_fault = None, effects = []\<rparr>"
  have 1: "cachedTokens ?a = ?r" and 2: "token_file ?a = FileText (Json ?r)"
    and 3: "truthy (get_prop ?r ''access_token'')"
    and 4: "get_prop ?r ''refresh_token'' = Some (JStr ''R1'')"
    and 5: "truthy (Some (JStr ''R1''))"
    and 6: "\<forall>now \<in> set [1000, 1001]. about_to_expire (\<lambda>v. NaN) now ?r = Inr True"
    by (simp_all add: about_to_expire_def)
  from concurrent_calls_each_refresh [OF 1 2 3 4 5 6] show ?thesis
    by (simp add: posts_def)
qed

text \<open>
  C2, as the claim states it, fails: two concurrent calls post the refresh token
  twice, and when the first request is answered with a new token and the second with
  status 400, the first caller gets \<^verbatim>\<open>A2\<close> and the second \<^verbatim>\<open>null\<close>.
\<close>

theorem single_flight_counterexample:
  "posts (snd (concurrent_calls (\<lambda>v. NaN) [1000, 1000]
      \<lparr>cachedTokens = JObj [(''access_token'', JStr ''A1''),
                      (''refresh_token'', JStr ''R1''), (''expires_at'', JNum (Fin 0))],
       token_file = FileText (Json (JObj [(''access_token'', JStr ''A1''),
                      (''refresh_token'', JStr ''R1''), (''expires_at'', JNum (Fin 0))])),
       write_fault = None, effects = []\<rparr>))
     = [JStr ''R1'', JStr ''R1'']
   \<and> fst (concurrent_calls (\<lambda>v. NaN) [1000, 1000]
      \<lparr>cachedTokens = JObj [(''access_token'', JStr ''A1''),
                      (''refresh_token'', JStr ''R1''), (''expires_at'', JNum (Fin 0))],
       token_file = FileText (Json (JObj [(''access_token'', JStr ''A1''),
                      (''refresh_token'', JStr ''R1''), (''expires_at'', JNum (Fin 0))])),
       write_fault = None, effects = []\<rparr>)
     = [Inr (Pending (Awaiting (JObj [(''access_token'', JStr ''A1''),
                      (''refresh_token'', JStr ''R1''), (''expires_at'', JNum (Fin 0))]))),
        Inr (Pending (Awaiting (JObj [(''access_token'', JStr ''A1''),
                      (''refresh_token'', JStr ''R1''), (''expires_at'', JNum (Fin 0))])))]
   \<and> fst (await (\<lambda>v. NaN)
        (Pending (Awaiting (JObj [(''access_token'', JStr ''A1''),
                      (''refresh_token'', JStr ''R1''), (''expires_at'', JNum (Fin 0))])))
        2000
        (Response 200 (Json (JObj [(''access_token'', JStr ''A2''), (''expires_in'', JNum (Fin 3600))])))
        (snd (concurrent_calls (\<lambda>v. NaN) [1000, 1000]
          \<lparr>cachedTokens = JObj [(''access_token'', JStr ''A1''),
                      (''refresh_token'', JStr ''R1''), (''expires_at'', JNum (Fin 0))],
           token_file = FileText (Json (JObj [(''access_token'', JStr ''A1''),
                      (''refresh_token'', JStr ''R1''), (''expires_at'', JNum (Fin 0))])),
           write_fault = None, effects = []\<rparr>)))
     = Some (JStr ''A2'')
   \<and> fst (await (\<lambda>v. NaN)
        (Pending (Awaiting (JObj [(''access_token'', JStr ''A1''),
                      (''refresh_token'', JStr ''R1''), (''expires_at'', JNum (Fin 0))])))
        2001
        (Response 400 Malformed)
        (snd (await (\<lambda>v. NaN)
          (Pending (Awaiting (JObj [(''access_token'', JStr ''A1''),
                      (''refresh_token'', JStr ''R1''), (''expires_at'', JNum (Fin 0))])))
          2000
          (Response 200 (Json (JObj [(''access_token'', JStr ''A2''), (''expires_in'', JNum (Fin 3600))])))
          (snd (concurrent_calls (\<lambda>v. NaN) [1000, 1000]
            \<lparr>cachedTokens = JObj [(''access_token'', JStr ''A1''),
                      (''refresh_token'', JStr ''R1''), (''expires_at'', JNum (Fin 0))],
             token_file = FileText (Json (JObj [(''access_token'', JStr ''A1''),
                      (''refresh_token'', JStr ''R1''), (''expires_at'', JNum (Fin 0))])),
             write_fault = None, effects = []\<rparr>)))))
     = Some JNull"
  by (simp add: getAccessToken_def serve_def about_to_expire_def
      refreshAccessToken_def loadTokenCache_def load_read_def load_parse_def JSON_parse_def
      await_def settle_def on_end_def on_success_def new_record_def saveTokenCache_def
      writeFileSync_def JSON_stringify_def token_of_def posts_def)

section \<open>The gate\<close>

text \<open>
  C8. With \<^verbatim>\<open>forceNew\<close> set, \<open>ensureAuthenticated\<close> fails with "Authentication
  required" in every state, and the state it leaves is the state it found: nothing is
  read from the store, nothing is posted, and the cache plays no part in the result.
\<close>

theorem forceNew_fails:
  "ensureAuthenticated rt True now later ev s = (Inl AuthenticationRequired, s)"
  by (simp add: ensureAuthenticated_def)

theorem forceNew_fails_witness:
  "ensureAuthenticated (\<lambda>v. NaN) True 1000 2000 RequestFailed
      \<lparr>cachedTokens = JObj [(''access_token'', JStr ''A1'')],
       token_file = FileMissing, write_fault = None, effects = []\<rparr>
   = (Inl AuthenticationRequired,
      \<lparr>cachedTokens = JObj [(''access_token'', JStr ''A1'')],
       token_file = FileMissing, write_fault = None, effects = []\<rparr>)"
  using forceNew_fails [of "\<lambda>v. NaN" 1000 2000 RequestFailed
      "\<lparr>cachedTokens = JObj [(''access_token'', JStr ''A1'')],
       token_file = FileMissing, write_fault = None, effects = []\<rparr>"]
  by simp

end
